theory Spec2Isabelle
  imports Complex_Main
begin

section \<open>The traffic-analysis hook \<open>useTrafficAI\<close>\<close>

text \<open>
  The development embeds the hook \<open>useTrafficAI\<close> in its four-counter version
  (tool \<open>report_vehicle_detection\<close>; lines 93 to 482 of
  \<open>src/components/LogPanel.tsx\<close>).  The React state cells and the refs of the hook
  are the fields of one record; every callback of the hook is a function from that record
  to its successor.  The browser objects the refs point to (media streams, interval
  timers, audio contexts, the promise of the session) live in the same record, addressed
  by numbers, so that a handle that is overwritten or nulled does not make its object
  disappear.
\<close>

subsection \<open>JavaScript values\<close>

text \<open>
  A finite double is modelled by the real number it denotes; the two infinities are
  outside the model.  The counters are added as reals; the playback clock is added with
  the addition of the host.  \<open>JObject p\<close> is an object or an array, carried
  with the string \<open>p\<close> that its conversion to a primitive yields.
\<close>

datatype jsnum = NaN | Num real

datatype jsval =
    JUndefined
  | JNull
  | JBool bool
  | JNumber jsnum
  | JString string
  | JObject string

text \<open>
  What the hook takes from its host: the conversion of strings to numbers and of numbers
  to strings, \<open>String.prototype.trim\<close>, the addition of doubles (the sum of two doubles
  is the double nearest to their sum; the theorems on the playback clock say what they
  assume of it), the build-time constant \<open>process.env.API_KEY\<close>, and the readings of
  \<open>Math.random\<close> and of the wall clock.

  The readings for the log entries and the \<open>new Date()\<close> of \<open>resetAnalysis\<close> are
  indexed by the number of such readings made so far (field \<open>tick\<close> of the state).
  \<open>updater_date n\<close> is the value of \<open>new Date()\<close> in the \<open>n\<close>-th run of the
  \<open>setStats\<close> updater of a detection (field \<open>date_reads\<close>).  That updater runs when
  React processes the queue of the statistics, which may be later than the call of
  \<open>setStats\<close>; the two families of readings are therefore kept apart, and nothing is
  said on how a reading of one lies in time to a reading of the other.
\<close>

record host =
  str_num :: "string \<Rightarrow> jsnum"
  num_str :: "real \<Rightarrow> string"
  str_trim :: "string \<Rightarrow> string"
  add_double :: "real \<Rightarrow> real \<Rightarrow> real"
  API_KEY :: "string option"
  random_id :: "nat \<Rightarrow> string"
  time_label :: "nat \<Rightarrow> string"
  date_now :: "nat \<Rightarrow> int"
  updater_date :: "nat \<Rightarrow> int"

fun Number_js :: "host \<Rightarrow> jsval \<Rightarrow> jsnum" where
  "Number_js h JUndefined = NaN"
| "Number_js h JNull = Num 0"
| "Number_js h (JBool b) = Num (if b then 1 else 0)"
| "Number_js h (JNumber n) = n"
| "Number_js h (JString s) = str_num h s"
| "Number_js h (JObject p) = str_num h p"

fun truthy :: "jsval \<Rightarrow> bool" where
  "truthy JUndefined = False"
| "truthy JNull = False"
| "truthy (JBool b) = b"
| "truthy (JNumber NaN) = False"
| "truthy (JNumber (Num r)) = (r \<noteq> 0)"
| "truthy (JString s) = (s \<noteq> [])"
| "truthy (JObject p) = True"

fun String_js :: "host \<Rightarrow> jsval \<Rightarrow> string" where
  "String_js h JUndefined = ''undefined''"
| "String_js h JNull = ''null''"
| "String_js h (JBool b) = (if b then ''true'' else ''false'')"
| "String_js h (JNumber NaN) = ''NaN''"
| "String_js h (JNumber (Num r)) = num_str h r"
| "String_js h (JString s) = s"
| "String_js h (JObject p) = p"

text \<open>\<open>n || 0\<close> on a number: \<open>NaN\<close> and zero are falsy.\<close>

fun or_zero :: "jsnum \<Rightarrow> real" where
  "or_zero NaN = 0"
| "or_zero (Num r) = r"

fun join :: "string \<Rightarrow> string list \<Rightarrow> string" where
  "join sep [] = []"
| "join sep [x] = x"
| "join sep (x # y # ys) = x @ sep @ join sep (y # ys)"

subsection \<open>Data model (\<open>types.ts\<close>)\<close>

datatype StreamState = IDLE | CONNECTING | ACTIVE | ERROR

datatype log_type = Info | Success | Error | Vehicle | Transcript

record LogEntry =
  entry_id :: string
  time :: string
  message :: string
  type :: log_type

text \<open>
  The field \<open>density\<close> is declared \<open>'LOW' | 'MEDIUM' | 'HIGH'\<close>; the declaration is
  erased at run time, so the field holds whatever value is written to it.
\<close>

record TrafficStats =
  twoWheelers :: real
  threeWheelers :: real
  fourWheelers :: real
  heavyVehicles :: real
  density :: jsval
  lastUpdated :: int

datatype facing = user | environment

text \<open>The properties of \<open>fc.args\<close> that the hook reads; a missing one is \<open>JUndefined\<close>.\<close>

record call_args =
  two_wheelers :: jsval
  three_wheelers :: jsval
  four_wheelers :: jsval
  heavy_vehicles :: jsval
  traffic_density :: jsval
  description :: jsval

record FunctionCall =
  fc_id :: "string option"
  fc_name :: "string option"
  fc_args :: "call_args option"

datatype outbound = ToolResponse "string option" "string option" string

text \<open>
  The promise returned by \<open>ai.live.connect\<close>.  A callback attached with \<open>then\<close>
  runs once the promise is fulfilled; while it is pending the callback waits in the
  promise's queue, and after a rejection it never runs.
\<close>

datatype promise = Pending "outbound list" | Fulfilled | Rejected

datatype js_error = TypeError

record video_el =
  srcObject :: "nat option"

text \<open>
  The state of the hook.  First the React state, then the refs, then the browser objects:
  \<open>live_streams\<close> are the media streams with a track that was not stopped,
  \<open>active_timers\<close> the intervals that were not cleared, \<open>open_contexts\<close> the audio
  contexts whose state is not \<open>closed\<close>, \<open>processors\<close> the microphone nodes wired
  so far (context and stream), \<open>outbox\<close> what was sent on which session, and
  \<open>scheduled\<close> the calls of \<open>source.start\<close> (context, start time, duration of the
  buffer).  Interval handles are positive integers, so the test
  \<open>if (frameIntervalRef.current)\<close> is a test for \<open>null\<close>.  \<open>canvasRef\<close> holds,
  for a mounted canvas, whether \<open>getContext('2d')\<close> yields a context.
\<close>

record app_state =
  streamState :: StreamState
  stats :: TrafficStats
  logs :: "LogEntry list"
  volume :: real
  facingMode :: facing
  error :: "string option"
  videoRef :: "video_el option"
  canvasRef :: "bool option"
  sessionPromiseRef :: "nat option"
  streamRef :: "nat option"
  frameIntervalRef :: "nat option"
  currentTranscriptRef :: string
  inputAudioContextRef :: "nat option"
  outputAudioContextRef :: "nat option"
  nextStartTimeRef :: real
  live_streams :: "nat set"
  active_timers :: "nat set"
  open_contexts :: "nat set"
  promises :: "nat \<Rightarrow> promise option"
  processors :: "(nat \<times> nat) list"
  outbox :: "(nat \<times> outbound) list"
  scheduled :: "(nat \<times> real \<times> real) list"
  next_id :: nat
  tick :: nat
  date_reads :: nat

subsection \<open>Logging and the tool-call interpreter\<close>

definition addLog :: "host \<Rightarrow> string \<Rightarrow> log_type \<Rightarrow> app_state \<Rightarrow> app_state" where
  "addLog h msg ty s =
     s\<lparr>logs := \<lparr>entry_id = random_id h (tick s), time = time_label h (tick s),
                 message = msg, type = ty\<rparr> # take 49 (logs s),
       tick := Suc (tick s)\<rparr>"

text \<open>\<open>sessionPromiseRef.current?.then(session => session.sendToolResponse(...))\<close>\<close>

definition then_send :: "outbound \<Rightarrow> app_state \<Rightarrow> app_state" where
  "then_send m s =
     (case sessionPromiseRef s of
        None \<Rightarrow> s
      | Some p \<Rightarrow>
          (case promises s p of
             None \<Rightarrow> s
           | Some (Pending q) \<Rightarrow> s\<lparr>promises := (promises s)(p \<mapsto> Pending (q @ [m]))\<rparr>
           | Some Fulfilled \<Rightarrow> s\<lparr>outbox := outbox s @ [(p, m)]\<rparr>
           | Some Rejected \<Rightarrow> s))"

definition detection_parts :: "host \<Rightarrow> real \<Rightarrow> real \<Rightarrow> real \<Rightarrow> real \<Rightarrow> string list" where
  "detection_parts h newTwo newThree newFour newHeavy =
     (if newTwo \<noteq> 0 then [num_str h newTwo @ '' Bike(s)''] else []) @
     (if newThree \<noteq> 0 then [num_str h newThree @ '' Auto(s)''] else []) @
     (if newFour \<noteq> 0 then [num_str h newFour @ '' Car(s)''] else []) @
     (if newHeavy \<noteq> 0 then [num_str h newHeavy @ '' Truck/Bus''] else [])"

text \<open>\<open>Number(v) || 0\<close> and \<open>fc.args.traffic_density || 'LOW'\<close>.\<close>

definition count_arg :: "host \<Rightarrow> jsval \<Rightarrow> real" where
  "count_arg h v = or_zero (Number_js h v)"

definition density_arg :: "call_args \<Rightarrow> jsval" where
  "density_arg a = (if truthy (traffic_density a) then traffic_density a else JString ''LOW'')"

text \<open>
  The body of the \<open>forEach\<close> in \<open>processToolCall\<close>.  Reading a property of
  \<open>fc.args\<close> when the call carries no \<open>args\<close> throws a \<open>TypeError\<close>, before
  anything is written.
\<close>

definition report_call :: "host \<Rightarrow> FunctionCall \<Rightarrow> app_state \<Rightarrow> js_error + app_state" where
  "report_call h fc s =
     (if fc_name fc = Some ''report_vehicle_detection'' then
        (case fc_args fc of
           None \<Rightarrow> Inl TypeError
         | Some a \<Rightarrow>
             (let newTwo = count_arg h (two_wheelers a);
                  newThree = count_arg h (three_wheelers a);
                  newFour = count_arg h (four_wheelers a);
                  newHeavy = count_arg h (heavy_vehicles a);
                  dens = density_arg a;
                  desc = description a;
                  s1 =
                    (if newTwo > 0 \<or> newThree > 0 \<or> newFour > 0 \<or> newHeavy > 0 then
                       (let prev = stats s;
                            s0 = s\<lparr>stats :=
                                     \<lparr>twoWheelers = twoWheelers prev + newTwo,
                                      threeWheelers = threeWheelers prev + newThree,
                                      fourWheelers = fourWheelers prev + newFour,
                                      heavyVehicles = heavyVehicles prev + newHeavy,
                                      density = dens,
                                      lastUpdated = updater_date h (date_reads s)\<rparr>,
                                   date_reads := Suc (date_reads s)\<rparr>;
                            parts = detection_parts h newTwo newThree newFour newHeavy;
                            msg = (if truthy desc
                                   then join '', '' parts @ '' - '' @ String_js h desc
                                   else join '', '' parts)
                        in addLog h (''Detected: '' @ msg) Vehicle s0)
                     else s\<lparr>stats := (stats s)\<lparr>density := dens\<rparr>\<rparr>)
              in Inr (then_send (ToolResponse (fc_id fc) (fc_name fc) ''OK'') s1)))
      else Inr s)"

text \<open>
  \<open>functionCalls.forEach\<close>: the calls in array order; an exception leaves the loop
  with the writes made so far.
\<close>

fun forEach_calls :: "host \<Rightarrow> FunctionCall list \<Rightarrow> app_state \<Rightarrow> app_state \<times> js_error option" where
  "forEach_calls h [] s = (s, None)"
| "forEach_calls h (fc # fcs) s =
     (case report_call h fc s of
        Inl e \<Rightarrow> (s, Some e)
      | Inr s' \<Rightarrow> forEach_calls h fcs s')"

definition processToolCall ::
  "host \<Rightarrow> FunctionCall list option \<Rightarrow> app_state \<Rightarrow> app_state \<times> js_error option" where
  "processToolCall h functionCalls s =
     (case functionCalls of
        None \<Rightarrow> (s, None)
      | Some fcs \<Rightarrow> if length fcs = 0 then (s, None) else forEach_calls h fcs s)"

definition resetAnalysis :: "host \<Rightarrow> app_state \<Rightarrow> app_state" where
  "resetAnalysis h s =
     addLog h ''Statistics reset'' Info
       (s\<lparr>stats := \<lparr>twoWheelers = 0, threeWheelers = 0, fourWheelers = 0, heavyVehicles = 0,
                    density = JString ''LOW'', lastUpdated = date_now h (tick s)\<rparr>,
          logs := [],
          tick := Suc (tick s)\<rparr>)"

subsection \<open>Session lifecycle\<close>

text \<open>
  \<open>stopStream\<close> is an \<open>async\<close> function with two \<open>await\<close>s, on the \<open>close()\<close>
  of the two audio contexts.  \<open>close()\<close> is taken to succeed, and a context counts as
  closed from the call of \<open>close()\<close> on.  The function \<open>stopStream\<close> below is the
  call run to its end with no other callback of the hook in between.  None of its callers
  (\<open>onerror\<close>, the \<open>catch\<close> of \<open>startStream\<close>) does anything after calling it.

  The same call is also given in its three parts, \<open>stopStream_begin\<close> up to the first
  \<open>await\<close>, \<open>stopStream_resume\<close> between the two, and \<open>stopStream_tail\<close> after the
  second, for the runs in which another callback is served while \<open>stopStream\<close> waits.
  (When a context is already closed the source does not wait for it, and the next part
  follows at once.)
\<close>

definition close_context :: "nat option \<Rightarrow> app_state \<Rightarrow> app_state" where
  "close_context r s =
     (case r of
        None \<Rightarrow> s
      | Some c \<Rightarrow> if c \<in> open_contexts s then s\<lparr>open_contexts := open_contexts s - {c}\<rparr> else s)"

definition stopStream :: "host \<Rightarrow> app_state \<Rightarrow> app_state" where
  "stopStream h s =
     (let s1 = (case streamRef s of
                  None \<Rightarrow> s
                | Some m \<Rightarrow> s\<lparr>live_streams := live_streams s - {m}, streamRef := None\<rparr>);
          s2 = (case videoRef s1 of
                  None \<Rightarrow> s1
                | Some v \<Rightarrow> s1\<lparr>videoRef := Some (v\<lparr>srcObject := None\<rparr>)\<rparr>);
          s3 = (case frameIntervalRef s2 of
                  None \<Rightarrow> s2
                | Some t \<Rightarrow> s2\<lparr>active_timers := active_timers s2 - {t},
                               frameIntervalRef := None\<rparr>);
          s4 = close_context (inputAudioContextRef s3) s3;
          s5 = close_context (outputAudioContextRef s4) s4
      in addLog h ''Analysis stopped'' Info (s5\<lparr>streamState := IDLE, volume := 0, error := None\<rparr>))"

definition stopStream_release :: "app_state \<Rightarrow> app_state" where
  "stopStream_release s =
     (let s1 = (case streamRef s of
                  None \<Rightarrow> s
                | Some m \<Rightarrow> s\<lparr>live_streams := live_streams s - {m}, streamRef := None\<rparr>);
          s2 = (case videoRef s1 of
                  None \<Rightarrow> s1
                | Some v \<Rightarrow> s1\<lparr>videoRef := Some (v\<lparr>srcObject := None\<rparr>)\<rparr>)
      in (case frameIntervalRef s2 of
            None \<Rightarrow> s2
          | Some t \<Rightarrow> s2\<lparr>active_timers := active_timers s2 - {t}, frameIntervalRef := None\<rparr>))"

definition stopStream_begin :: "app_state \<Rightarrow> app_state" where
  "stopStream_begin s =
     (let s3 = stopStream_release s in close_context (inputAudioContextRef s3) s3)"

definition stopStream_resume :: "app_state \<Rightarrow> app_state" where
  "stopStream_resume s = close_context (outputAudioContextRef s) s"

definition stopStream_tail :: "host \<Rightarrow> app_state \<Rightarrow> app_state" where
  "stopStream_tail h s =
     addLog h ''Analysis stopped'' Info (s\<lparr>streamState := IDLE, volume := 0, error := None\<rparr>)"

text \<open>The \<open>catch\<close> block of \<open>startStream\<close>, entered with \<open>error.message = m\<close>.\<close>

definition start_failed :: "host \<Rightarrow> string \<Rightarrow> app_state \<Rightarrow> app_state" where
  "start_failed h m s =
     (let msg = (if m \<noteq> [] then m else ''Failed to start. Check API Key.'');
          s1 = addLog h (''Failed to start: '' @ msg) Error s
      in stopStream h (s1\<lparr>error := Some msg, streamState := ERROR\<rparr>))"

definition key_missing :: "string option \<Rightarrow> bool" where
  "key_missing k =
     (case k of
        None \<Rightarrow> True
      | Some a \<Rightarrow> a = [] \<or> a = ''undefined'' \<or> a = [CHR 0x22, CHR 0x22])"

text \<open>
  \<open>startStream\<close> up to its \<open>await\<close> of \<open>getUserMedia\<close>.  The continuation is
  \<open>startStream_granted\<close> when the promise is fulfilled with a media stream, and
  \<open>start_failed\<close> with the message of the rejection otherwise.  \<open>modeToUse\<close> is
  the camera side of the call, which its \<open>onopen\<close> closure keeps.
\<close>

definition startStream :: "host \<Rightarrow> facing option \<Rightarrow> app_state \<Rightarrow> app_state" where
  "startStream h forceMode s =
     (let s1 = s\<lparr>error := None, streamState := CONNECTING\<rparr>
      in if key_missing (API_KEY h)
         then start_failed h
                (''API Key missing. Set '' @ [CHR 0x27] @ ''GEMINI_API_KEY'' @ [CHR 0x27] @
                 '' in Vercel Env Vars.'') s1
         else s1\<lparr>inputAudioContextRef := Some (next_id s1),
                 outputAudioContextRef := Some (Suc (next_id s1)),
                 open_contexts := insert (Suc (next_id s1)) (insert (next_id s1) (open_contexts s1)),
                 next_id := Suc (Suc (next_id s1))\<rparr>)"

definition modeToUse :: "facing option \<Rightarrow> app_state \<Rightarrow> facing" where
  "modeToUse forceMode s = (case forceMode of None \<Rightarrow> facingMode s | Some m \<Rightarrow> m)"

definition startStream_granted :: "app_state \<Rightarrow> app_state" where
  "startStream_granted s =
     (let m = next_id s;
          p = Suc (next_id s);
          s1 = s\<lparr>streamRef := Some m, live_streams := insert m (live_streams s)\<rparr>;
          s2 = (case videoRef s1 of
                  None \<Rightarrow> s1
                | Some v \<Rightarrow> s1\<lparr>videoRef := Some (v\<lparr>srcObject := Some m\<rparr>)\<rparr>)
      in s2\<lparr>sessionPromiseRef := Some p,
            promises := (promises s2)(p \<mapsto> Pending []),
            next_id := Suc p\<rparr>)"

definition session_resolved :: "nat \<Rightarrow> app_state \<Rightarrow> app_state" where
  "session_resolved p s =
     (case promises s p of
        Some (Pending q) \<Rightarrow>
          s\<lparr>promises := (promises s)(p \<mapsto> Fulfilled), outbox := outbox s @ map (Pair p) q\<rparr>
      | _ \<Rightarrow> s)"

definition session_rejected :: "nat \<Rightarrow> app_state \<Rightarrow> app_state" where
  "session_rejected p s =
     (case promises s p of
        Some (Pending q) \<Rightarrow> s\<lparr>promises := (promises s)(p \<mapsto> Rejected)\<rparr>
      | _ \<Rightarrow> s)"

definition startVideoProcessing :: "app_state \<Rightarrow> app_state" where
  "startVideoProcessing s =
     (if videoRef s = None \<or> canvasRef s = None then s
      else
        (let s1 = (case frameIntervalRef s of
                     None \<Rightarrow> s
                   | Some t \<Rightarrow> s\<lparr>active_timers := active_timers s - {t}\<rparr>)
         in if canvasRef s1 = Some False then s1
            else s1\<lparr>frameIntervalRef := Some (next_id s1),
                    active_timers := insert (next_id s1) (active_timers s1),
                    next_id := Suc (next_id s1)\<rparr>))"

fun facing_str :: "facing \<Rightarrow> string" where
  "facing_str user = ''user''"
| "facing_str environment = ''environment''"

definition onopen :: "host \<Rightarrow> facing \<Rightarrow> app_state \<Rightarrow> app_state" where
  "onopen h mode s =
     (let s1 = addLog h (''Session started ('' @ facing_str mode @ '' camera)'') Success
                 (s\<lparr>streamState := ACTIVE\<rparr>);
          s2 = (case (inputAudioContextRef s1, streamRef s1) of
                  (Some c, Some m) \<Rightarrow> s1\<lparr>processors := (c, m) # processors s1\<rparr>
                | _ \<Rightarrow> s1)
      in startVideoProcessing s2)"

definition onclose :: "app_state \<Rightarrow> app_state" where
  "onclose s = s\<lparr>streamState := IDLE\<rparr>"

definition onerror :: "host \<Rightarrow> string \<Rightarrow> app_state \<Rightarrow> app_state" where
  "onerror h m s =
     (let msg = (if m \<noteq> [] then m else ''Connection failed. Check API Key or Network.'');
          s1 = addLog h (''Error: '' @ msg) Error s
      in stopStream h (s1\<lparr>error := Some msg, streamState := ERROR\<rparr>))"

definition toggleCamera :: "host \<Rightarrow> app_state \<Rightarrow> app_state" where
  "toggleCamera h s =
     (let newMode = (if facingMode s = environment then user else environment);
          s1 = s\<lparr>facingMode := newMode\<rparr>
      in if streamState s = ACTIVE \<or> streamState s = CONNECTING
         then stopStream h (addLog h ''Switching camera...'' Info s1)
         else s1)"

subsection \<open>Inbound messages and the playback clock\<close>

record LiveServerMessage =
  toolCall :: "FunctionCall list option option"
  transcription_text :: "string option"
  turnComplete :: bool
  audioData :: "string option"

text \<open>
  The visualizer: \<open>updateVol\<close> tests the \<open>streamState\<close> its closure captured and writes
  the mean of the frequency data, \<open>level\<close>, to \<open>volume\<close>.
\<close>

definition updateVol :: "StreamState \<Rightarrow> real \<Rightarrow> app_state \<Rightarrow> app_state" where
  "updateVol captured level s = (if captured \<noteq> ACTIVE then s else s\<lparr>volume := level\<rparr>)"

text \<open>
  \<open>onmessage\<close> up to its \<open>await\<close> of \<open>decodeAudioData\<close>; \<open>t\<close> is the reading of
  \<open>ctx.currentTime\<close>.  The second component is the context the pending decode belongs
  to, if the handler reached the \<open>await\<close>.  An exception from \<open>processToolCall\<close> ends
  the handler.
\<close>

definition onmessage_begin ::
  "host \<Rightarrow> LiveServerMessage \<Rightarrow> real \<Rightarrow> app_state \<Rightarrow> app_state \<times> nat option" where
  "onmessage_begin h msg t s =
     (case (case toolCall msg of None \<Rightarrow> (s, None) | Some fcs \<Rightarrow> processToolCall h fcs s) of
        (s1, Some e) \<Rightarrow> (s1, None)
      | (s1, None) \<Rightarrow>
          (let s2 = (case transcription_text msg of
                       None \<Rightarrow> s1
                     | Some tx \<Rightarrow>
                         if tx \<noteq> []
                         then s1\<lparr>currentTranscriptRef := currentTranscriptRef s1 @ tx\<rparr>
                         else s1);
               s3 = (if turnComplete msg \<and> currentTranscriptRef s2 \<noteq> [] then
                       (let text = str_trim h (currentTranscriptRef s2);
                            s' = (if length text > 0 then addLog h text Transcript s2 else s2)
                        in s'\<lparr>currentTranscriptRef := []\<rparr>)
                     else s2)
           in (case (audioData msg, outputAudioContextRef s3) of
                 (Some a, Some ctx) \<Rightarrow>
                   if a \<noteq> []
                   then (s3\<lparr>nextStartTimeRef := max (nextStartTimeRef s3) t\<rparr>, Some ctx)
                   else (s3, None)
               | _ \<Rightarrow> (s3, None))))"

text \<open>
  The rest of \<open>onmessage\<close>, once the buffer is decoded: \<open>d\<close> is \<open>buffer.duration\<close>.
  The sum \<open>nextStartTimeRef.current += buffer.duration\<close> is a sum of doubles.
\<close>

definition onmessage_decoded ::
  "host \<Rightarrow> nat \<Rightarrow> real \<Rightarrow> StreamState \<Rightarrow> real \<Rightarrow> app_state \<Rightarrow> app_state" where
  "onmessage_decoded h ctx d captured level s =
     (let s1 = updateVol captured level s
      in s1\<lparr>scheduled := scheduled s1 @ [(ctx, nextStartTimeRef s1, d)],
            nextStartTimeRef := add_double h (nextStartTimeRef s1) d\<rparr>)"

text \<open>
  A message handled without interruption: the decode, when there is one, yields
  \<open>dec = Some (d, captured, level)\<close>, or \<open>None\<close> when it fails.
\<close>

definition onmessage ::
  "host \<Rightarrow> LiveServerMessage \<Rightarrow> real \<Rightarrow> (real \<times> StreamState \<times> real) option \<Rightarrow> app_state \<Rightarrow> app_state" where
  "onmessage h msg t dec s =
     (case onmessage_begin h msg t s of
        (s1, None) \<Rightarrow> s1
      | (s1, Some ctx) \<Rightarrow>
          (case dec of
             None \<Rightarrow> s1
           | Some (d, captured, level) \<Rightarrow> onmessage_decoded h ctx d captured level s1))"

subsection \<open>The hook as an event system\<close>

text \<open>
  One event per callback the host runtime can run.  \<open>MediaGranted\<close> and
  \<open>MediaDenied\<close> continue a pending \<open>startStream\<close>; \<open>OnOpen m\<close> is the
  \<open>onopen\<close> closure of the call whose \<open>modeToUse\<close> was \<open>m\<close>; \<open>AudioDecoded\<close>
  continues a pending \<open>onmessage\<close>.  \<open>StopStream\<close> is a call of \<open>stopStream\<close>
  that nothing interrupts; \<open>StopBegin\<close>, \<open>StopResume\<close> and \<open>StopEnd\<close> are the
  three parts of a call during which other events are served.  The timer and microphone
  callbacks only send media to the session and are not events of the model.
\<close>

datatype event =
    StartStream "facing option"
  | MediaGranted
  | MediaDenied string
  | SessionResolved nat
  | SessionRejected nat
  | OnOpen facing
  | OnMessage LiveServerMessage real
  | AudioDecoded nat real StreamState real
  | AnimationFrame StreamState real
  | OnClose
  | OnError string
  | StopStream
  | StopBegin
  | StopResume
  | StopEnd
  | ToggleCamera
  | ResetAnalysis

fun step :: "host \<Rightarrow> app_state \<Rightarrow> event \<Rightarrow> app_state" where
  "step h s (StartStream forceMode) = startStream h forceMode s"
| "step h s MediaGranted = startStream_granted s"
| "step h s (MediaDenied m) = start_failed h m s"
| "step h s (SessionResolved p) = session_resolved p s"
| "step h s (SessionRejected p) = session_rejected p s"
| "step h s (OnOpen mode) = onopen h mode s"
| "step h s (OnMessage msg t) = fst (onmessage_begin h msg t s)"
| "step h s (AudioDecoded ctx d captured level) = onmessage_decoded h ctx d captured level s"
| "step h s (AnimationFrame captured level) = updateVol captured level s"
| "step h s OnClose = onclose s"
| "step h s (OnError m) = onerror h m s"
| "step h s StopStream = stopStream h s"
| "step h s StopBegin = stopStream_begin s"
| "step h s StopResume = stopStream_resume s"
| "step h s StopEnd = stopStream_tail h s"
| "step h s ToggleCamera = toggleCamera h s"
| "step h s ResetAnalysis = resetAnalysis h s"

definition run :: "host \<Rightarrow> app_state \<Rightarrow> event list \<Rightarrow> app_state" where
  "run h s es = foldl (step h) s es"

text \<open>The state of the hook at its first render, before the video and canvas mount.\<close>

definition initial :: "host \<Rightarrow> app_state" where
  "initial h =
     \<lparr>streamState = IDLE,
      stats = \<lparr>twoWheelers = 0, threeWheelers = 0, fourWheelers = 0, heavyVehicles = 0,
               density = JString ''LOW'', lastUpdated = date_now h 0\<rparr>,
      logs = [], volume = 0, facingMode = environment, error = None,
      videoRef = None, canvasRef = None, sessionPromiseRef = None, streamRef = None,
      frameIntervalRef = None, currentTranscriptRef = [],
      inputAudioContextRef = None, outputAudioContextRef = None, nextStartTimeRef = 0,
      live_streams = {}, active_timers = {}, open_contexts = {},
      promises = Map.empty, processors = [], outbox = [], scheduled = [],
      next_id = 0, tick = 1, date_reads = 0\<rparr>"

text \<open>The same once the camera view is mounted, with a canvas that has a 2d context.\<close>

definition mounted :: "host \<Rightarrow> app_state" where
  "mounted h = (initial h)\<lparr>videoRef := Some \<lparr>srcObject = None\<rparr>, canvasRef := Some True\<rparr>"

text \<open>A host for closed examples.\<close>

definition host0 :: host where
  "host0 = \<lparr>str_num = (\<lambda>_. NaN), num_str = (\<lambda>_. ''n''), str_trim = (\<lambda>t. t),
            add_double = (\<lambda>x y. x + y), API_KEY = Some ''k'',
            random_id = (\<lambda>_. ''id''), time_label = (\<lambda>_. ''t''), date_now = int,
            updater_date = int\<rparr>"

subsection \<open>Predicates and scenarios of the properties\<close>

definition known_call :: "string option \<Rightarrow> call_args \<Rightarrow> FunctionCall" where
  "known_call i a = \<lparr>fc_id = i, fc_name = Some ''report_vehicle_detection'', fc_args = Some a\<rparr>"

definition is_known :: "FunctionCall \<Rightarrow> bool" where
  "is_known fc = (fc_name fc = Some ''report_vehicle_detection'')"


definition no_args :: call_args where
  "no_args = \<lparr>two_wheelers = JUndefined, three_wheelers = JUndefined,
              four_wheelers = JUndefined, heavy_vehicles = JUndefined,
              traffic_density = JUndefined, description = JUndefined\<rparr>"

text \<open>The two calls of the aggregation scenario.\<close>

definition args_first :: call_args where
  "args_first = no_args\<lparr>two_wheelers := JNumber (Num 2), four_wheelers := JNumber (Num 1)\<rparr>"



definition args_negative :: call_args where
  "args_negative = no_args\<lparr>two_wheelers := JNumber (Num (- 3)), four_wheelers := JNumber (Num 1)\<rparr>"

definition args_extreme :: call_args where
  "args_extreme = no_args\<lparr>traffic_density := JString ''EXTREME''\<rparr>"

definition args_medium :: call_args where
  "args_medium = no_args\<lparr>traffic_density := JString ''MEDIUM''\<rparr>"


definition counters_le :: "TrafficStats \<Rightarrow> TrafficStats \<Rightarrow> bool" where
  "counters_le a b =
     (twoWheelers a \<le> twoWheelers b \<and> threeWheelers a \<le> threeWheelers b \<and>
      fourWheelers a \<le> fourWheelers b \<and> heavyVehicles a \<le> heavyVehicles b)"

definition nonneg_counts :: "host \<Rightarrow> FunctionCall \<Rightarrow> bool" where
  "nonneg_counts h fc =
     (case fc_args fc of
        None \<Rightarrow> True
      | Some a \<Rightarrow>
          0 \<le> count_arg h (two_wheelers a) \<and> 0 \<le> count_arg h (three_wheelers a) \<and>
          0 \<le> count_arg h (four_wheelers a) \<and> 0 \<le> count_arg h (heavy_vehicles a))"

definition event_calls :: "event \<Rightarrow> FunctionCall list" where
  "event_calls e =
     (case e of
        OnMessage msg t \<Rightarrow> (case toolCall msg of Some (Some fcs) \<Rightarrow> fcs | _ \<Rightarrow> [])
      | _ \<Rightarrow> [])"

definition density_levels :: "jsval set" where
  "density_levels = {JString ''LOW'', JString ''MEDIUM'', JString ''HIGH''}"

text \<open>No media stream, interval timer or open audio context is held.\<close>

definition released :: "app_state \<Rightarrow> bool" where
  "released s = (live_streams s = {} \<and> active_timers s = {} \<and> open_contexts s = {})"

text \<open>
  Playback is sequential: every scheduled buffer starts no earlier than its predecessor
  starts, and no earlier than its predecessor ends, the end being the sum of start and
  duration as the code adds them.
\<close>

fun sequential :: "host \<Rightarrow> (nat \<times> real \<times> real) list \<Rightarrow> bool" where
  "sequential h [] = True"
| "sequential h [x] = True"
| "sequential h ((c1, s1, d1) # (c2, s2, d2) # xs) =
     (s1 \<le> s2 \<and> add_double h s1 d1 \<le> s2 \<and> sequential h ((c2, s2, d2) # xs))"

fun ends_by :: "host \<Rightarrow> real \<Rightarrow> (nat \<times> real \<times> real) list \<Rightarrow> bool" where
  "ends_by h c [] = True"
| "ends_by h c ((x, st, d) # xs) = (st \<le> c \<and> add_double h st d \<le> c \<and> ends_by h c xs)"

definition sched_inv :: "host \<Rightarrow> app_state \<Rightarrow> bool" where
  "sched_inv h s = (sequential h (scheduled s) \<and> ends_by h (nextStartTimeRef s) (scheduled s))"

text \<open>
  Messages handled one after the other, each to its end (the decode included) before the
  next is served: message, reading of the output clock, outcome of the decode.
\<close>

fun handle_all ::
  "host \<Rightarrow> app_state \<Rightarrow>
   (LiveServerMessage \<times> real \<times> (real \<times> StreamState \<times> real) option) list \<Rightarrow> app_state" where
  "handle_all h s [] = s"
| "handle_all h s ((msg, t, dec) # ms) = handle_all h (onmessage h msg t dec s) ms"

fun decode_ok :: "(real \<times> StreamState \<times> real) option \<Rightarrow> bool" where
  "decode_ok None = True"
| "decode_ok (Some (d, captured, level)) = (0 \<le> d)"

text \<open>
  The scheduler in the spec's words, for chunks given by the reading of the output clock at
  their arrival and the duration of their buffer: the start of a chunk is the maximum of
  the cursor and the clock, and the cursor advances to that start plus the duration.
\<close>

fun spec_schedule :: "host \<Rightarrow> real \<Rightarrow> (real \<times> real) list \<Rightarrow> (real \<times> real) list" where
  "spec_schedule h c [] = []"
| "spec_schedule h c ((t, d) # cs) = (max c t, d) # spec_schedule h (add_double h (max c t) d) cs"

fun duration_ok :: "event \<Rightarrow> bool" where
  "duration_ok (AudioDecoded ctx d captured level) = (0 \<le> d)"
| "duration_ok e = True"

definition audio_msg :: LiveServerMessage where
  "audio_msg = \<lparr>toolCall = None, transcription_text = None, turnComplete = False,
                audioData = Some ''AAAA''\<rparr>"

text \<open>Audio chunks as messages handled to their end, with a decode that succeeds.\<close>

definition arrivals ::
  "StreamState \<Rightarrow> real \<Rightarrow> (real \<times> real) list \<Rightarrow>
   (LiveServerMessage \<times> real \<times> (real \<times> StreamState \<times> real) option) list" where
  "arrivals captured level cs = map (\<lambda>(t, d). (audio_msg, t, Some (d, captured, level))) cs"

definition tool_msg :: "FunctionCall list \<Rightarrow> LiveServerMessage" where
  "tool_msg fcs = \<lparr>toolCall = Some (Some fcs), transcription_text = None, turnComplete = False,
                   audioData = None\<rparr>"

text \<open>A session that was started, granted the camera, connected and opened.\<close>

definition live0 :: app_state where
  "live0 = run host0 (mounted host0)
             [StartStream None, MediaGranted, SessionResolved 3, OnOpen environment]"

text \<open>The same after one audio chunk of duration 4, received at output time 1.\<close>

definition played0 :: app_state where
  "played0 = run host0 live0 [OnMessage audio_msg 1, AudioDecoded 1 4 IDLE 0]"

text \<open>
  Two chunks on the session \<open>live0\<close>: the first message arrives at output time 1 and its
  buffer lasts 4, the second arrives at time 2 and its buffer lasts 3; the decode of the
  second ends first.
\<close>

definition overlapped0 :: app_state where
  "overlapped0 = run host0 live0
                   [OnMessage audio_msg 1, OnMessage audio_msg 2,
                    AudioDecoded 1 3 IDLE 0, AudioDecoded 1 4 IDLE 0]"

text \<open>Start, camera granted, stop, and only then the open callback of the session.\<close>

definition late_open0 :: app_state where
  "late_open0 = run host0 (mounted host0)
                  [StartStream None, MediaGranted, StopStream, OnOpen environment]"

section \<open>Properties\<close>

subsection \<open>Auxiliary facts\<close>

lemma live0_fields:
  "sessionPromiseRef live0 = Some 3" "promises live0 3 = Some Fulfilled"
  "outbox live0 = []" "streamState live0 = ACTIVE" "outputAudioContextRef live0 = Some 1"
  "nextStartTimeRef live0 = 0" "scheduled live0 = []" "stats live0 = stats (initial host0)"
  "live_streams live0 = {2}" "active_timers live0 = {4}" "open_contexts live0 = {0, 1}"
  by (auto simp add: live0_def run_def mounted_def initial_def host0_def startStream_def key_missing_def
     startStream_granted_def session_resolved_def onopen_def addLog_def startVideoProcessing_def Let_def)

lemma addLog_fields [simp]:
  "stats (addLog h m ty s) = stats s"
  "streamState (addLog h m ty s) = streamState s"
  "error (addLog h m ty s) = error s"
  "volume (addLog h m ty s) = volume s"
  "sessionPromiseRef (addLog h m ty s) = sessionPromiseRef s"
  "promises (addLog h m ty s) = promises s"
  "outbox (addLog h m ty s) = outbox s"
  "scheduled (addLog h m ty s) = scheduled s"
  "nextStartTimeRef (addLog h m ty s) = nextStartTimeRef s"
  "live_streams (addLog h m ty s) = live_streams s"
  "active_timers (addLog h m ty s) = active_timers s"
  "open_contexts (addLog h m ty s) = open_contexts s"
  "streamRef (addLog h m ty s) = streamRef s"
  "frameIntervalRef (addLog h m ty s) = frameIntervalRef s"
  "videoRef (addLog h m ty s) = videoRef s"
  "canvasRef (addLog h m ty s) = canvasRef s"
  "inputAudioContextRef (addLog h m ty s) = inputAudioContextRef s"
  "outputAudioContextRef (addLog h m ty s) = outputAudioContextRef s"
  "tick (addLog h m ty s) = Suc (tick s)"
  "date_reads (addLog h m ty s) = date_reads s"
  "logs (addLog h m ty s) =
     \<lparr>entry_id = random_id h (tick s), time = time_label h (tick s), message = m, type = ty\<rparr>
       # take 49 (logs s)"
  by (simp_all add: addLog_def)

lemma then_send_fields [simp]:
  "stats (then_send m s) = stats s"
  "logs (then_send m s) = logs s"
  "tick (then_send m s) = tick s"
  "date_reads (then_send m s) = date_reads s"
  "sessionPromiseRef (then_send m s) = sessionPromiseRef s"
  "scheduled (then_send m s) = scheduled s"
  "nextStartTimeRef (then_send m s) = nextStartTimeRef s"
  "streamState (then_send m s) = streamState s"
  by (simp_all add: then_send_def split: option.splits promise.splits)


lemma report_call_unknown: "\<not> is_known fc \<Longrightarrow> report_call h fc s = Inr s"
  by (simp add: report_call_def is_known_def)

lemma report_call_zero:
  assumes "is_known fc" "fc_args fc = Some a"
    and "\<not> (0 < count_arg h (two_wheelers a) \<or> 0 < count_arg h (three_wheelers a) \<or>
            0 < count_arg h (four_wheelers a) \<or> 0 < count_arg h (heavy_vehicles a))"
  shows "report_call h fc s =
     Inr (then_send (ToolResponse (fc_id fc) (fc_name fc) ''OK'')
            (s\<lparr>stats := (stats s)\<lparr>density := density_arg a\<rparr>\<rparr>))"
  using assms by (simp add: report_call_def is_known_def Let_def)

lemma report_call_positive:
  assumes "is_known fc" "fc_args fc = Some a"
    and "0 < count_arg h (two_wheelers a) \<or> 0 < count_arg h (three_wheelers a) \<or>
         0 < count_arg h (four_wheelers a) \<or> 0 < count_arg h (heavy_vehicles a)"
  shows "report_call h fc s =
     Inr (then_send (ToolResponse (fc_id fc) (fc_name fc) ''OK'')
            (addLog h
               (''Detected: '' @
                (if truthy (description a)
                 then join '', '' (detection_parts h (count_arg h (two_wheelers a))
                        (count_arg h (three_wheelers a)) (count_arg h (four_wheelers a))
                        (count_arg h (heavy_vehicles a))) @ '' - '' @ String_js h (description a)
                 else join '', '' (detection_parts h (count_arg h (two_wheelers a))
                        (count_arg h (three_wheelers a)) (count_arg h (four_wheelers a))
                        (count_arg h (heavy_vehicles a)))))
               Vehicle
               (s\<lparr>stats :=
                    \<lparr>twoWheelers = twoWheelers (stats s) + count_arg h (two_wheelers a),
                     threeWheelers = threeWheelers (stats s) + count_arg h (three_wheelers a),
                     fourWheelers = fourWheelers (stats s) + count_arg h (four_wheelers a),
                     heavyVehicles = heavyVehicles (stats s) + count_arg h (heavy_vehicles a),
                     density = density_arg a,
                     lastUpdated = updater_date h (date_reads s)\<rparr>,
                  date_reads := Suc (date_reads s)\<rparr>)))"
  using assms by (simp add: report_call_def is_known_def Let_def)

lemma report_call_no_args:
  "is_known fc \<Longrightarrow> fc_args fc = None \<Longrightarrow> report_call h fc s = Inl TypeError"
  by (simp add: report_call_def is_known_def)


lemma processToolCall_forEach:
  "processToolCall h (Some fcs) s = forEach_calls h fcs s"
  by (cases fcs) (simp_all add: processToolCall_def)

subsection \<open>Reset\<close>

text \<open>
  C7, as stated, fails: after \<open>reset()\<close> the log sequence is not empty, since
  \<open>resetAnalysis\<close> itself logs ``Statistics reset'' after clearing the log.
\<close>

theorem reset_log_not_empty: "logs (resetAnalysis host0 (initial host0)) \<noteq> []"
  by (simp add: resetAnalysis_def)

text \<open>
  C7, amended: after \<open>reset()\<close>, whatever the state before, the four counters are 0,
  the density is \<open>LOW\<close>, and the log sequence holds exactly one entry, the info entry
  ``Statistics reset''; the stream state and the session handle are unchanged.
\<close>

theorem reset_effect:
  "twoWheelers (stats (resetAnalysis h s)) = 0 \<and>
   threeWheelers (stats (resetAnalysis h s)) = 0 \<and>
   fourWheelers (stats (resetAnalysis h s)) = 0 \<and>
   heavyVehicles (stats (resetAnalysis h s)) = 0 \<and>
   density (stats (resetAnalysis h s)) = JString ''LOW'' \<and>
   logs (resetAnalysis h s) =
     [\<lparr>entry_id = random_id h (Suc (tick s)), time = time_label h (Suc (tick s)),
       message = ''Statistics reset'', type = Info\<rparr>] \<and>
   streamState (resetAnalysis h s) = streamState s \<and>
   sessionPromiseRef (resetAnalysis h s) = sessionPromiseRef s \<and>
   promises (resetAnalysis h s) = promises s"
  by (simp add: resetAnalysis_def)

subsection \<open>Calls without detections\<close>

text \<open>
  C4: a known call whose four count fields are all zero after coercion changes only the
  density field of the statistics: the four counters and \<open>lastUpdated\<close> keep their
  values, the log sequence is unchanged, so no vehicle entry is appended.
\<close>

theorem zero_counts_density_only:
  assumes "fc_name fc = Some ''report_vehicle_detection''" and "fc_args fc = Some a"
    and "count_arg h (two_wheelers a) = 0" and "count_arg h (three_wheelers a) = 0"
    and "count_arg h (four_wheelers a) = 0" and "count_arg h (heavy_vehicles a) = 0"
  shows "snd (processToolCall h (Some [fc]) s) = None \<and>
         stats (fst (processToolCall h (Some [fc]) s)) = (stats s)\<lparr>density := density_arg a\<rparr> \<and>
         twoWheelers (stats (fst (processToolCall h (Some [fc]) s))) = twoWheelers (stats s) \<and>
         threeWheelers (stats (fst (processToolCall h (Some [fc]) s))) = threeWheelers (stats s) \<and>
         fourWheelers (stats (fst (processToolCall h (Some [fc]) s))) = fourWheelers (stats s) \<and>
         heavyVehicles (stats (fst (processToolCall h (Some [fc]) s))) = heavyVehicles (stats s) \<and>
         lastUpdated (stats (fst (processToolCall h (Some [fc]) s))) = lastUpdated (stats s) \<and>
         logs (fst (processToolCall h (Some [fc]) s)) = logs s"
proof -
  have known: "is_known fc"
    using assms(1) by (simp add: is_known_def)
  have nopos: "\<not> (0 < count_arg h (two_wheelers a) \<or> 0 < count_arg h (three_wheelers a) \<or>
                   0 < count_arg h (four_wheelers a) \<or> 0 < count_arg h (heavy_vehicles a))"
    using assms(3-6) by simp
  show ?thesis
    by (simp add: processToolCall_forEach report_call_zero [OF known assms(2) nopos])
qed

text \<open>
  Witness for C4: a known call that carries only the density \<open>MEDIUM\<close>.
\<close>

theorem zero_counts_density_only_witness:
  "stats (fst (processToolCall host0 (Some [known_call (Some ''c7'') args_medium]) (initial host0)))
     = (stats (initial host0))\<lparr>density := JString ''MEDIUM''\<rparr> \<and>
   logs (fst (processToolCall host0 (Some [known_call (Some ''c7'') args_medium]) (initial host0))) = []"
  using zero_counts_density_only [of "known_call (Some ''c7'') args_medium" args_medium host0 "initial host0"]
  by (simp add: known_call_def args_medium_def no_args_def count_arg_def density_arg_def initial_def)

subsection \<open>The density argument\<close>

text \<open>
  C10, as stated, fails: a density argument outside the enumeration is stored as it is.
  The cast \<open>as 'LOW' | 'MEDIUM' | 'HIGH'\<close> does nothing at run time.
\<close>

theorem density_not_validated:
  "density (stats (fst (processToolCall host0 (Some [known_call (Some ''c1'') args_extreme]) (initial host0))))
     = JString ''EXTREME'' \<and> JString ''EXTREME'' \<notin> density_levels"
  by (simp add: processToolCall_forEach report_call_def known_call_def args_extreme_def no_args_def
      count_arg_def density_arg_def density_levels_def Let_def)

lemma report_call_density:
  assumes "is_known fc" "fc_args fc = Some a" "report_call h fc s = Inr s'"
  shows "density (stats s') = density_arg a"
proof (cases "0 < count_arg h (two_wheelers a) \<or> 0 < count_arg h (three_wheelers a) \<or>
              0 < count_arg h (four_wheelers a) \<or> 0 < count_arg h (heavy_vehicles a)")
  case True
  from report_call_positive [OF assms(1,2) True, of s] assms(3) show ?thesis by auto
next
  case False
  from report_call_zero [OF assms(1,2) False, of s] assms(3) show ?thesis by auto
qed

text \<open>
  C10, amended: for a known call the stored density is the argument when the argument is
  truthy and \<open>LOW\<close> when it is absent or falsy; so when the argument is one of
  \<open>LOW\<close>, \<open>MEDIUM\<close>, \<open>HIGH\<close>, or absent or falsy, the density field is one of
  the three enumeration values after the call.
\<close>

theorem density_default:
  assumes "fc_name fc = Some ''report_vehicle_detection''" and "fc_args fc = Some a"
  shows "snd (processToolCall h (Some [fc]) s) = None \<and>
         density (stats (fst (processToolCall h (Some [fc]) s))) =
           (if truthy (traffic_density a) then traffic_density a else JString ''LOW'') \<and>
         (traffic_density a \<in> density_levels \<or> \<not> truthy (traffic_density a) \<longrightarrow>
            density (stats (fst (processToolCall h (Some [fc]) s))) \<in> density_levels)"
proof -
  have known: "is_known fc"
    using assms(1) by (simp add: is_known_def)
  obtain s' where r: "report_call h fc s = Inr s'"
    using known assms(2) by (simp add: report_call_def is_known_def Let_def)
  have d: "density (stats s') = density_arg a"
    by (rule report_call_density [OF known assms(2) r])
  have p: "processToolCall h (Some [fc]) s = (s', None)"
    by (simp add: processToolCall_forEach r)
  show ?thesis
    by (auto simp add: p d density_arg_def density_levels_def)
qed

text \<open>
  Witness for C10: a call without density and a call with density \<open>MEDIUM\<close>.
\<close>

theorem density_default_witness:
  "density (stats (fst (processToolCall host0 (Some [known_call None no_args]) (initial host0))))
     = JString ''LOW'' \<and>
   density (stats (fst (processToolCall host0 (Some [known_call None args_medium]) (initial host0))))
     \<in> density_levels"
  using density_default [of "known_call None no_args" no_args host0 "initial host0"]
        density_default [of "known_call None args_medium" args_medium host0 "initial host0"]
  by (simp add: known_call_def args_medium_def no_args_def density_levels_def)

subsection \<open>Counters never decrease\<close>

text \<open>
  C3, as stated, fails: \<open>Number(x) || 0\<close> keeps a negative number, and a call with
  one positive count adds all four deltas, so a counter can decrease.
\<close>

theorem negative_count_decrements:
  "count_arg host0 (two_wheelers args_negative) < 0 \<and>
   twoWheelers (stats (fst (processToolCall host0 (Some [known_call (Some ''c1'') args_negative])
                              (initial host0))))
     < twoWheelers (stats (initial host0))"
  by (simp add: processToolCall_forEach report_call_def known_call_def args_negative_def no_args_def
      count_arg_def density_arg_def Let_def initial_def)

lemma counters_le_refl [simp]: "counters_le a a"
  by (simp add: counters_le_def)

lemma counters_le_trans: "counters_le a b \<Longrightarrow> counters_le b c \<Longrightarrow> counters_le a c"
  by (auto simp add: counters_le_def)

lemma report_call_counters:
  assumes "nonneg_counts h fc" and "report_call h fc s = Inr s'"
  shows "counters_le (stats s) (stats s')"
proof (cases "is_known fc")
  case False
  then show ?thesis using assms(2) by (simp add: report_call_unknown)
next
  case True
  show ?thesis
  proof (cases "fc_args fc")
    case None
    then show ?thesis using True assms(2) by (simp add: report_call_no_args)
  next
    case (Some a)
    have nn: "0 \<le> count_arg h (two_wheelers a)" "0 \<le> count_arg h (three_wheelers a)"
             "0 \<le> count_arg h (four_wheelers a)" "0 \<le> count_arg h (heavy_vehicles a)"
      using assms(1) Some by (simp_all add: nonneg_counts_def)
    show ?thesis
    proof (cases "0 < count_arg h (two_wheelers a) \<or> 0 < count_arg h (three_wheelers a) \<or>
                  0 < count_arg h (four_wheelers a) \<or> 0 < count_arg h (heavy_vehicles a)")
      case pos: True
      from report_call_positive [OF True Some pos, of s] assms(2) nn
      show ?thesis by (auto simp add: counters_le_def)
    next
      case zero: False
      from report_call_zero [OF True Some zero, of s] assms(2)
      show ?thesis by (auto simp add: counters_le_def)
    qed
  qed
qed

lemma forEach_counters:
  "list_all (nonneg_counts h) fcs \<Longrightarrow> counters_le (stats s) (stats (fst (forEach_calls h fcs s)))"
proof (induction fcs arbitrary: s)
  case Nil
  then show ?case by simp
next
  case (Cons fc fcs)
  show ?case
  proof (cases "report_call h fc s")
    case (Inl e)
    then show ?thesis by simp
  next
    case (Inr s')
    have "counters_le (stats s) (stats s')"
      using Cons.prems Inr by (auto intro: report_call_counters)
    moreover have "counters_le (stats s') (stats (fst (forEach_calls h fcs s')))"
      using Cons.prems by (simp add: Cons.IH)
    ultimately show ?thesis
      using Inr by (simp add: counters_le_trans)
  qed
qed

lemma stopStream_stats [simp]: "stats (stopStream h s) = stats s"
  by (simp add: stopStream_def close_context_def Let_def split: option.splits)

lemma startVideoProcessing_stats [simp]: "stats (startVideoProcessing s) = stats s"
  by (simp add: startVideoProcessing_def Let_def split: option.splits)

lemma stop_parts_stats [simp]:
  "stats (stopStream_begin s) = stats s"
  "stats (stopStream_resume s) = stats s"
  "stats (stopStream_tail h s) = stats s"
  by (simp_all add: stopStream_begin_def stopStream_release_def stopStream_resume_def
      stopStream_tail_def close_context_def Let_def split: option.splits)

lemma onmessage_begin_counters:
  assumes "list_all (nonneg_counts h) (event_calls (OnMessage msg t))"
  shows "counters_le (stats s) (stats (fst (onmessage_begin h msg t s)))"
proof -
  define r where "r = (case toolCall msg of None \<Rightarrow> (s, None) | Some fcs \<Rightarrow> processToolCall h fcs s)"
  have le: "counters_le (stats s) (stats (fst r))"
  proof (cases "toolCall msg")
    case None
    then show ?thesis by (simp add: r_def)
  next
    case (Some o1)
    show ?thesis
    proof (cases o1)
      case None
      then show ?thesis using Some by (simp add: r_def processToolCall_def)
    next
      case (Some fcs)
      then show ?thesis
        using \<open>toolCall msg = Some o1\<close> assms
        by (simp add: r_def processToolCall_forEach event_calls_def forEach_counters)
    qed
  qed
  have "stats (fst (onmessage_begin h msg t s)) = stats (fst r)"
    unfolding onmessage_begin_def r_def [symmetric]
    by (cases r) (auto simp add: Let_def split: option.splits prod.splits)
  then show ?thesis using le by simp
qed

text \<open>
  C3, amended: each count field is coerced with \<open>Number(x) || 0\<close>; for every
  operation of the hook other than the reset, if the coerced counts of the tool calls it
  processes are all non-negative, then every counter afterwards is at least its value
  before.
\<close>

theorem counters_monotone:
  assumes "e \<noteq> ResetAnalysis" and "list_all (nonneg_counts h) (event_calls e)"
  shows "counters_le (stats s) (stats (step h s e))"
proof (cases e)
  case (OnMessage msg t)
  then show ?thesis using assms(2) by (simp add: onmessage_begin_counters)
next
  case ResetAnalysis
  then show ?thesis using assms(1) by simp
qed (simp_all add: startStream_def start_failed_def startStream_granted_def session_resolved_def
       session_rejected_def onopen_def onmessage_decoded_def updateVol_def onclose_def onerror_def
       toggleCamera_def Let_def split: option.splits promise.splits)

text \<open>
  Witness for C3: a message with one call of counts two = 2, four = 1.
\<close>

theorem counters_monotone_witness:
  "counters_le (stats live0)
     (stats (step host0 live0 (OnMessage (tool_msg [known_call (Some ''c1'') args_first]) 0)))"
  using counters_monotone [of "OnMessage (tool_msg [known_call (Some ''c1'') args_first]) 0" host0 live0]
  by (simp add: event_calls_def tool_msg_def nonneg_counts_def known_call_def args_first_def
      no_args_def count_arg_def)

subsection \<open>Acknowledgments\<close>








subsection \<open>The aggregation scenario\<close>



lemma known_call_simps [simp]:
  "is_known (known_call i a)" "fc_args (known_call i a) = Some a"
  "fc_id (known_call i a) = i" "fc_name (known_call i a) = Some ''report_vehicle_detection''"
  by (simp_all add: known_call_def is_known_def)





subsection \<open>Stopping\<close>

lemma stopStream_fields [simp]:
  "streamState (stopStream h s) = IDLE"
  "error (stopStream h s) = None"
  "volume (stopStream h s) = 0"
  "streamRef (stopStream h s) = None"
  "frameIntervalRef (stopStream h s) = None"
  "nextStartTimeRef (stopStream h s) = nextStartTimeRef s"
  "scheduled (stopStream h s) = scheduled s"
  "canvasRef (stopStream h s) = canvasRef s"
  "inputAudioContextRef (stopStream h s) = inputAudioContextRef s"
  "outputAudioContextRef (stopStream h s) = outputAudioContextRef s"
  "videoRef (stopStream h s) = map_option (\<lambda>v. v\<lparr>srcObject := None\<rparr>) (videoRef s)"
  by (simp_all add: stopStream_def close_context_def Let_def split: option.splits)

lemma stopStream_resources:
  "live_streams (stopStream h s) = live_streams s - set_option (streamRef s)"
  "active_timers (stopStream h s) = active_timers s - set_option (frameIntervalRef s)"
  "open_contexts (stopStream h s) =
     open_contexts s - (set_option (inputAudioContextRef s) \<union> set_option (outputAudioContextRef s))"
  by (auto simp add: stopStream_def close_context_def Let_def split: option.splits)

lemma stopStream_logs:
  "logs (stopStream h s) =
     \<lparr>entry_id = random_id h (tick s), time = time_label h (tick s),
      message = ''Analysis stopped'', type = Info\<rparr> # take 49 (logs s)"
  by (simp add: stopStream_def close_context_def Let_def split: option.splits)

lemma close_context_closed:
  "set_option r \<inter> open_contexts s = {} \<Longrightarrow> close_context r s = s"
  by (cases r) (simp_all add: close_context_def)

lemma video_detached:
  "videoRef s = map_option (\<lambda>v. v\<lparr>srcObject := None\<rparr>) w \<Longrightarrow>
   (case videoRef s of None \<Rightarrow> s | Some v \<Rightarrow> s\<lparr>videoRef := Some (v\<lparr>srcObject := None\<rparr>)\<rparr>) = s"
  by (cases w) auto

lemma stopStream_when_stopped:
  assumes "streamRef s = None" and "frameIntervalRef s = None"
    and "videoRef s = map_option (\<lambda>v. v\<lparr>srcObject := None\<rparr>) w"
    and "set_option (inputAudioContextRef s) \<inter> open_contexts s = {}"
    and "set_option (outputAudioContextRef s) \<inter> open_contexts s = {}"
    and "streamState s = IDLE" and "volume s = 0" and "error s = None"
  shows "stopStream h s = addLog h ''Analysis stopped'' Info s"
proof -
  have same: "s\<lparr>streamState := IDLE, volume := 0, error := None\<rparr> = s"
    using assms(6-8) by (cases s) simp
  show ?thesis
    unfolding stopStream_def
    by (simp add: assms(1,2) video_detached [OF assms(3)] close_context_closed [OF assms(4)]
        close_context_closed [OF assms(5)] same)
qed

lemma stopStream_twice:
  "stopStream h (stopStream h s) = addLog h ''Analysis stopped'' Info (stopStream h s)"
  by (rule stopStream_when_stopped [where w = "videoRef s"])
     (auto simp add: stopStream_resources)

subsection \<open>Errors of the remote session\<close>

lemma live0_logs:
  "logs live0 = [\<lparr>entry_id = ''id'', time = ''t'', message = ''Session started (environment camera)'',
                  type = Success\<rparr>]"
  "streamRef live0 = Some 2" "frameIntervalRef live0 = Some 4"
  "inputAudioContextRef live0 = Some 0"
  by (simp_all add: live0_def run_def mounted_def initial_def host0_def startStream_def key_missing_def
     startStream_granted_def session_resolved_def onopen_def addLog_def startVideoProcessing_def Let_def)

text \<open>
  C1 at a concrete input: on the opened session \<open>live0\<close> the callback \<open>onerror\<close>
  fires with the message \<open>boom\<close>.  It logs the error, sets the error message and
  the state \<open>ERROR\<close>, and then calls \<open>stopStream\<close>, which sets the state to
  \<open>IDLE\<close> and the error message to \<open>null\<close>: the hook ends idle with no error
  message, not in the error state the claim describes.  One error entry is logged and the
  teardown is complete, as the claim says.
\<close>

theorem onerror_state_overwritten:
  "streamState live0 = ACTIVE \<and>
   streamState (onerror host0 ''boom'' live0) = IDLE \<and>
   error (onerror host0 ''boom'' live0) = None \<and>
   map message (logs (onerror host0 ''boom'' live0)) =
     [''Analysis stopped'', ''Error: boom'', ''Session started (environment camera)''] \<and>
   map type (logs (onerror host0 ''boom'' live0)) = [Info, Error, Success] \<and>
   released (onerror host0 ''boom'' live0)"
  by (simp add: onerror_def Let_def stopStream_logs stopStream_resources released_def
      live0_fields live0_logs)

subsection \<open>Stop before the session opens\<close>

lemma stopStream_parts:
  "stopStream h s = stopStream_tail h (stopStream_resume (stopStream_begin s))"
proof -
  have "outputAudioContextRef (stopStream_begin s) = outputAudioContextRef (stopStream_release s)"
    by (simp add: stopStream_begin_def close_context_def Let_def split: option.splits)
  then show ?thesis
    by (simp add: stopStream_def stopStream_tail_def stopStream_resume_def stopStream_begin_def
        stopStream_release_def Let_def)
qed

lemma run_stop_parts:
  "run h s (es @ [StopBegin, StopResume, StopEnd]) = stopStream h (run h s es)"
  by (simp add: run_def stopStream_parts)

lemma stop_parts_fields [simp]:
  "streamState (stopStream_begin s) = streamState s"
  "streamState (stopStream_resume s) = streamState s"
  "streamState (stopStream_tail h s) = IDLE"
  "active_timers (stopStream_resume s) = active_timers s"
  "active_timers (stopStream_tail h s) = active_timers s"
  "live_streams (stopStream_resume s) = live_streams s"
  "live_streams (stopStream_tail h s) = live_streams s"
  "videoRef (stopStream_begin s) = map_option (\<lambda>v. v\<lparr>srcObject := None\<rparr>) (videoRef s)"
  "canvasRef (stopStream_begin s) = canvasRef s"
  "frameIntervalRef (stopStream_begin s) = None"
  by (simp_all add: stopStream_begin_def stopStream_release_def stopStream_resume_def
      stopStream_tail_def close_context_def Let_def split: option.splits)

text \<open>
  C2, as stated, fails: \<open>onopen\<close> has no guard.  After start, camera grant and stop,
  the open callback of the session still sets the state to \<open>ACTIVE\<close> and starts a
  frame-sampling timer.
\<close>

theorem late_open_activates:
  "streamState late_open0 = ACTIVE \<and> frameIntervalRef late_open0 = Some 4 \<and>
   active_timers late_open0 = {4} \<and> \<not> released late_open0"
  by (simp add: late_open0_def run_def mounted_def initial_def host0_def startStream_def key_missing_def
     startStream_granted_def stopStream_def close_context_def onopen_def addLog_def
     startVideoProcessing_def released_def Let_def)

lemma stop_after_start:
  assumes "released s"
  shows "released (stopStream h (startStream h fm s))"
  using assms
  by (auto simp add: released_def startStream_def start_failed_def Let_def stopStream_resources)

lemma stop_after_granted:
  assumes "released s"
  shows "released (stopStream h (startStream_granted (startStream h fm s)))"
  using assms
  by (auto simp add: released_def startStream_def start_failed_def startStream_granted_def Let_def
      stopStream_resources split: option.splits)

lemma startStream_state: "streamState (startStream h fm s) \<noteq> ACTIVE"
  by (simp add: startStream_def start_failed_def Let_def)

lemma startStream_granted_fields [simp]:
  "streamState (startStream_granted s) = streamState s"
  "canvasRef (startStream_granted s) = canvasRef s"
  "(videoRef (startStream_granted s) = None) = (videoRef s = None)"
  "live_streams (startStream_granted s) = insert (next_id s) (live_streams s)"
  by (simp_all add: startStream_granted_def Let_def split: option.splits)

lemma startStream_refs [simp]:
  "canvasRef (startStream h fm s) = canvasRef s"
  "(videoRef (startStream h fm s) = None) = (videoRef s = None)"
  by (simp_all add: startStream_def start_failed_def Let_def split: option.splits)

lemma onopen_state: "streamState (onopen h m s) = ACTIVE"
  by (simp add: onopen_def startVideoProcessing_def Let_def split: option.splits prod.splits)

lemma onopen_timer:
  assumes "videoRef s \<noteq> None" and "canvasRef s = Some True"
  shows "frameIntervalRef (onopen h m s) \<noteq> None \<and>
         (\<exists>t. frameIntervalRef (onopen h m s) = Some t \<and> t \<in> active_timers (onopen h m s))"
  using assms
  by (auto simp add: onopen_def startVideoProcessing_def Let_def split: option.splits prod.splits)

lemma onopen_refs [simp]:
  "live_streams (onopen h m s) = live_streams s"
  by (simp add: onopen_def startVideoProcessing_def Let_def split: option.splits prod.splits)

text \<open>
  C2, amended.  The start is made from a state that holds no device resources.  If
  \<open>stop()\<close> is called after \<open>start()\<close>, before or after the camera is granted, and no
  other callback runs until \<open>stop()\<close> has completed, then the state is not
  \<open>ACTIVE\<close> at any point up to there, and at the completion of \<open>stop()\<close> the state is
  \<open>IDLE\<close> and no media stream, timer or open audio context remains.  The open callback
  is not guarded: in every state it sets the state to \<open>ACTIVE\<close>, and with video and
  canvas mounted it leaves a running frame-sampling timer.  If, after a start that found
  its API key, the open callback or the camera grant is served while \<open>stop()\<close> waits
  for the audio contexts to close, then \<open>stop()\<close> still completes in \<open>IDLE\<close>, but
  with the timer running, or the media stream live.
\<close>

theorem stop_before_open:
  assumes "released s"
  shows "streamState (run h s [StartStream fm]) \<noteq> ACTIVE \<and>
         streamState (run h s [StartStream fm, StopBegin]) \<noteq> ACTIVE \<and>
         streamState (run h s [StartStream fm, StopBegin, StopResume]) \<noteq> ACTIVE \<and>
         streamState (run h s [StartStream fm, StopBegin, StopResume, StopEnd]) = IDLE \<and>
         released (run h s [StartStream fm, StopBegin, StopResume, StopEnd]) \<and>
         streamState (run h s [StartStream fm, MediaGranted]) \<noteq> ACTIVE \<and>
         streamState (run h s [StartStream fm, MediaGranted, StopBegin]) \<noteq> ACTIVE \<and>
         streamState (run h s [StartStream fm, MediaGranted, StopBegin, StopResume]) \<noteq> ACTIVE \<and>
         streamState (run h s [StartStream fm, MediaGranted, StopBegin, StopResume, StopEnd]) = IDLE \<and>
         released (run h s [StartStream fm, MediaGranted, StopBegin, StopResume, StopEnd]) \<and>
         (\<forall>t m. streamState (onopen h m t) = ACTIVE \<and>
            (videoRef t \<noteq> None \<and> canvasRef t = Some True \<longrightarrow>
               frameIntervalRef (onopen h m t) \<noteq> None \<and> \<not> released (onopen h m t))) \<and>
         (\<forall>m. \<not> key_missing (API_KEY h) \<and> videoRef s \<noteq> None \<and> canvasRef s = Some True \<longrightarrow>
            streamState (run h s [StartStream fm, MediaGranted, StopBegin, OnOpen m,
                                  StopResume, StopEnd]) = IDLE \<and>
            \<not> released (run h s [StartStream fm, MediaGranted, StopBegin, OnOpen m,
                                 StopResume, StopEnd])) \<and>
         (\<not> key_missing (API_KEY h) \<longrightarrow>
            streamState (run h s [StartStream fm, StopBegin, MediaGranted, StopResume, StopEnd]) = IDLE \<and>
            \<not> released (run h s [StartStream fm, StopBegin, MediaGranted, StopResume, StopEnd]))"
proof -
  have quiet: "run h s [StartStream fm, StopBegin, StopResume, StopEnd] =
                 stopStream h (startStream h fm s)"
    "run h s [StartStream fm, MediaGranted, StopBegin, StopResume, StopEnd] =
       stopStream h (startStream_granted (startStream h fm s))"
    by (simp_all add: run_def stopStream_parts)
  have never: "streamState (run h s [StartStream fm]) \<noteq> ACTIVE"
    "streamState (run h s [StartStream fm, StopBegin]) \<noteq> ACTIVE"
    "streamState (run h s [StartStream fm, StopBegin, StopResume]) \<noteq> ACTIVE"
    "streamState (run h s [StartStream fm, MediaGranted]) \<noteq> ACTIVE"
    "streamState (run h s [StartStream fm, MediaGranted, StopBegin]) \<noteq> ACTIVE"
    "streamState (run h s [StartStream fm, MediaGranted, StopBegin, StopResume]) \<noteq> ACTIVE"
    by (simp_all add: run_def startStream_state)
  have "open": "streamState (onopen h m t) = ACTIVE \<and>
            (videoRef t \<noteq> None \<and> canvasRef t = Some True \<longrightarrow>
               frameIntervalRef (onopen h m t) \<noteq> None \<and> \<not> released (onopen h m t))" for t m
    using onopen_timer [of t h m] by (auto simp add: onopen_state released_def)
  have during: "streamState (run h s [StartStream fm, MediaGranted, StopBegin, OnOpen m,
                                  StopResume, StopEnd]) = IDLE \<and>
            \<not> released (run h s [StartStream fm, MediaGranted, StopBegin, OnOpen m,
                                 StopResume, StopEnd])"
    if "\<not> key_missing (API_KEY h) \<and> videoRef s \<noteq> None \<and> canvasRef s = Some True" for m
  proof -
    let ?t = "stopStream_begin (startStream_granted (startStream h fm s))"
    have "videoRef ?t \<noteq> None" "canvasRef ?t = Some True"
      using that by simp_all
    then obtain x where "x \<in> active_timers (onopen h m ?t)"
      using onopen_timer [of ?t h m] by blast
    then show ?thesis
      by (auto simp add: run_def released_def)
  qed
  have grant: "streamState (run h s [StartStream fm, StopBegin, MediaGranted, StopResume, StopEnd]) = IDLE"
    "\<not> released (run h s [StartStream fm, StopBegin, MediaGranted, StopResume, StopEnd])"
    by (simp_all add: run_def released_def)
  show ?thesis
    using never "open" during grant stop_after_start [OF assms, of h fm]
      stop_after_granted [OF assms, of h fm]
    by (simp add: quiet)
qed

text \<open>
  Witness for C2: start and stop on the mounted hook; the open callback served while the
  stop waits leaves the timer 4 running in state \<open>IDLE\<close>.
\<close>

theorem stop_before_open_witness:
  "released (mounted host0) \<and>
   streamState (run host0 (mounted host0) [StartStream None, MediaGranted, StopBegin, StopResume, StopEnd]) = IDLE \<and>
   released (run host0 (mounted host0) [StartStream None, MediaGranted, StopBegin, StopResume, StopEnd]) \<and>
   streamState (run host0 (mounted host0)
      [StartStream None, MediaGranted, StopBegin, OnOpen environment, StopResume, StopEnd]) = IDLE \<and>
   active_timers (run host0 (mounted host0)
      [StartStream None, MediaGranted, StopBegin, OnOpen environment, StopResume, StopEnd]) = {4}"
proof -
  have r: "released (mounted host0)"
    by (simp add: released_def mounted_def initial_def)
  have m: "\<not> key_missing (API_KEY host0) \<and> videoRef (mounted host0) \<noteq> None \<and>
           canvasRef (mounted host0) = Some True"
    by (simp add: mounted_def key_missing_def host0_def)
  have t: "active_timers (run host0 (mounted host0)
      [StartStream None, MediaGranted, StopBegin, OnOpen environment, StopResume, StopEnd]) = {4}"
    by (simp add: run_def mounted_def initial_def host0_def startStream_def key_missing_def
        startStream_granted_def stopStream_begin_def stopStream_release_def stopStream_resume_def
        stopStream_tail_def close_context_def onopen_def addLog_def startVideoProcessing_def Let_def)
  from stop_before_open [OF r, of host0 None] r m t show ?thesis by simp
qed

subsection \<open>What stop leaves behind\<close>

lemma played0_clock: "nextStartTimeRef played0 = 5"
  by (simp add: played0_def run_def onmessage_begin_def onmessage_decoded_def updateVol_def
      audio_msg_def live0_fields host0_def Let_def)

text \<open>
  C9, as stated, fails: \<open>stopStream\<close> does not write \<open>nextStartTimeRef\<close>.  After
  one chunk of duration 4 scheduled at time 1 the playback clock is 5, and it is still 5
  after \<open>stop()\<close>.
\<close>

theorem stop_keeps_playback_clock:
  "nextStartTimeRef played0 = 5 \<and> nextStartTimeRef (stopStream host0 played0) \<noteq> 0"
  by (simp add: played0_clock)

text \<open>
  C9, amended: after any \<open>stop()\<close> the tracks of the held stream are stopped and the
  handle is null, the video source is detached, the timer is cancelled, both audio
  contexts are closed, the volume is zero, the error is cleared and the state is
  \<open>IDLE\<close>; the playback clock keeps its value.  A second \<open>stop()\<close> changes nothing
  but the log, to which every call appends the entry ``Analysis stopped''.
\<close>

theorem stop_effect:
  "streamRef (stopStream h s) = None \<and>
   live_streams (stopStream h s) = live_streams s - set_option (streamRef s) \<and>
   videoRef (stopStream h s) = map_option (\<lambda>v. v\<lparr>srcObject := None\<rparr>) (videoRef s) \<and>
   frameIntervalRef (stopStream h s) = None \<and>
   active_timers (stopStream h s) = active_timers s - set_option (frameIntervalRef s) \<and>
   open_contexts (stopStream h s) =
     open_contexts s - (set_option (inputAudioContextRef s) \<union> set_option (outputAudioContextRef s)) \<and>
   volume (stopStream h s) = 0 \<and>
   error (stopStream h s) = None \<and>
   streamState (stopStream h s) = IDLE \<and>
   nextStartTimeRef (stopStream h s) = nextStartTimeRef s \<and>
   stopStream h (stopStream h s) = addLog h ''Analysis stopped'' Info (stopStream h s)"
  by (simp add: stopStream_resources stopStream_twice)

subsection \<open>The playback clock\<close>

lemma report_call_clock:
  "report_call h fc s = Inr s' \<Longrightarrow>
   nextStartTimeRef s' = nextStartTimeRef s \<and> scheduled s' = scheduled s \<and>
   outputAudioContextRef s' = outputAudioContextRef s"
  by (auto simp add: report_call_def then_send_def addLog_def Let_def
      split: if_splits option.splits promise.splits)

lemma forEach_clock:
  "nextStartTimeRef (fst (forEach_calls h fcs s)) = nextStartTimeRef s \<and>
   scheduled (fst (forEach_calls h fcs s)) = scheduled s"
proof (induction fcs arbitrary: s)
  case Nil
  then show ?case by simp
next
  case (Cons fc fcs)
  show ?case
  proof (cases "report_call h fc s")
    case (Inl e)
    then show ?thesis by simp
  next
    case (Inr s')
    then show ?thesis using Cons.IH [of s'] report_call_clock [OF Inr] by simp
  qed
qed

lemma processToolCall_clock:
  "nextStartTimeRef (fst (processToolCall h fcs s)) = nextStartTimeRef s \<and>
   scheduled (fst (processToolCall h fcs s)) = scheduled s"
  by (cases fcs) (simp_all add: processToolCall_def forEach_clock)

lemma onmessage_begin_clock:
  "scheduled (fst (onmessage_begin h msg t s)) = scheduled s \<and>
   nextStartTimeRef s \<le> nextStartTimeRef (fst (onmessage_begin h msg t s)) \<and>
   (snd (onmessage_begin h msg t s) \<noteq> None \<longrightarrow>
      nextStartTimeRef (fst (onmessage_begin h msg t s)) = max (nextStartTimeRef s) t)"
proof -
  define r where "r = (case toolCall msg of None \<Rightarrow> (s, None) | Some fcs \<Rightarrow> processToolCall h fcs s)"
  have r: "nextStartTimeRef (fst r) = nextStartTimeRef s \<and> scheduled (fst r) = scheduled s"
    by (cases "toolCall msg") (simp_all add: r_def processToolCall_clock)
  obtain s1 e where re: "r = (s1, e)" by (cases r)
  have s1: "nextStartTimeRef s1 = nextStartTimeRef s" "scheduled s1 = scheduled s"
    using r re by simp_all
  show ?thesis
    unfolding onmessage_begin_def r_def [symmetric] re
    by (cases e) (auto simp add: Let_def s1 split: option.splits)
qed

lemma step_clock:
  assumes "\<forall>x d. 0 \<le> d \<longrightarrow> x \<le> add_double h x d" and "duration_ok e"
  shows "nextStartTimeRef s \<le> nextStartTimeRef (step h s e) \<and>
         (scheduled (step h s e) = scheduled s \<or>
          (\<exists>c d. scheduled (step h s e) = scheduled s @ [(c, nextStartTimeRef s, d)] \<and>
                 nextStartTimeRef (step h s e) = add_double h (nextStartTimeRef s) d))"
proof (cases e)
  case (OnMessage msg t)
  then show ?thesis using onmessage_begin_clock [of h msg t s] by simp
next
  case (AudioDecoded c d captured level)
  then show ?thesis using assms
    by (simp add: onmessage_decoded_def updateVol_def Let_def)
qed (simp_all add: startStream_def start_failed_def startStream_granted_def session_resolved_def
       session_rejected_def onopen_def startVideoProcessing_def updateVol_def onclose_def
       onerror_def toggleCamera_def resetAnalysis_def stopStream_begin_def stopStream_release_def
       stopStream_resume_def stopStream_tail_def close_context_def Let_def
       split: option.splits promise.splits prod.splits)

lemma ends_by_mono: "ends_by h c xs \<Longrightarrow> c \<le> c' \<Longrightarrow> ends_by h c' xs"
  by (induction h c xs rule: ends_by.induct) auto

lemma ends_by_snoc:
  "ends_by h n xs \<Longrightarrow> n \<le> add_double h n d \<Longrightarrow>
   ends_by h (add_double h n d) (xs @ [(c, n, d)])"
  by (induction h n xs rule: ends_by.induct) auto

lemma sequential_snoc:
  "sequential h xs \<Longrightarrow> ends_by h n xs \<Longrightarrow> sequential h (xs @ [(c, n, d)])"
  by (induction h xs rule: sequential.induct) auto

lemma step_sched_inv:
  assumes "\<forall>x d. 0 \<le> d \<longrightarrow> x \<le> add_double h x d" and "duration_ok e" and "sched_inv h s"
  shows "sched_inv h (step h s e)"
proof -
  note c = step_clock [OF assms(1,2), of s]
  from c have mono: "nextStartTimeRef s \<le> nextStartTimeRef (step h s e)" by simp
  from c consider
    (same) "scheduled (step h s e) = scheduled s"
  | (more) c d where "scheduled (step h s e) = scheduled s @ [(c, nextStartTimeRef s, d)]"
      "nextStartTimeRef (step h s e) = add_double h (nextStartTimeRef s) d"
    by blast
  then show ?thesis
  proof cases
    case same
    then show ?thesis using assms(3) mono by (auto simp add: sched_inv_def intro: ends_by_mono)
  next
    case more
    then show ?thesis using assms(3) mono
      by (simp add: sched_inv_def sequential_snoc ends_by_snoc)
  qed
qed

lemma run_clock:
  assumes "\<forall>x d. 0 \<le> d \<longrightarrow> x \<le> add_double h x d"
  shows "\<forall>e\<in>set es. duration_ok e \<Longrightarrow> sched_inv h s \<Longrightarrow>
         nextStartTimeRef s \<le> nextStartTimeRef (run h s es) \<and> sched_inv h (run h s es)"
proof (induction es arbitrary: s)
  case Nil
  then show ?case by (simp add: run_def)
next
  case (Cons e es)
  have ok: "duration_ok e" using Cons.prems(1) by simp
  have "nextStartTimeRef s \<le> nextStartTimeRef (step h s e)"
    using step_clock [OF assms ok] by simp
  moreover have "nextStartTimeRef (step h s e) \<le> nextStartTimeRef (run h (step h s e) es) \<and>
                 sched_inv h (run h (step h s e) es)"
    using Cons.IH [of "step h s e"] Cons.prems step_sched_inv [OF assms ok] by simp
  ultimately show ?case by (simp add: run_def)
qed

lemma run_append: "run h s (es @ es') = run h (run h s es) es'"
  by (simp add: run_def)

lemma onmessage_run:
  "\<exists>es. onmessage h msg t dec s = run h s es \<and> (decode_ok dec \<longrightarrow> (\<forall>e\<in>set es. duration_ok e))"
proof (cases "onmessage_begin h msg t s")
  case (Pair s1 pending)
  show ?thesis
  proof (cases pending)
    case None
    then have "onmessage h msg t dec s = run h s [OnMessage msg t]"
      using Pair by (simp add: onmessage_def run_def)
    then show ?thesis by (intro exI [of _ "[OnMessage msg t]"]) simp
  next
    case (Some ctx)
    show ?thesis
    proof (cases dec)
      case None
      then have "onmessage h msg t dec s = run h s [OnMessage msg t]"
        using Pair Some by (simp add: onmessage_def run_def)
      then show ?thesis by (intro exI [of _ "[OnMessage msg t]"]) simp
    next
      case dec: (Some x)
      obtain d captured level where x: "x = (d, captured, level)" by (cases x)
      have "onmessage h msg t dec s = run h s [OnMessage msg t, AudioDecoded ctx d captured level]"
        using Pair Some dec x by (simp add: onmessage_def run_def)
      then show ?thesis
        using dec x by (intro exI [of _ "[OnMessage msg t, AudioDecoded ctx d captured level]"]) simp
    qed
  qed
qed

lemma handle_all_run:
  "\<forall>m\<in>set ms. decode_ok (snd (snd m)) \<Longrightarrow>
   \<exists>es. handle_all h s ms = run h s es \<and> (\<forall>e\<in>set es. duration_ok e)"
proof (induction ms arbitrary: s)
  case Nil
  show ?case by (intro exI [of _ "[]"]) (simp add: run_def)
next
  case (Cons m ms)
  obtain msg t dec where m: "m = (msg, t, dec)" by (cases m)
  have ok: "decode_ok dec" using Cons.prems m by simp
  obtain es1 where e1: "onmessage h msg t dec s = run h s es1" "\<forall>e\<in>set es1. duration_ok e"
    using onmessage_run [of h msg t dec s] ok by blast
  obtain es2 where e2: "handle_all h (onmessage h msg t dec s) ms = run h (onmessage h msg t dec s) es2"
      "\<forall>e\<in>set es2. duration_ok e"
    using Cons.IH [of "onmessage h msg t dec s"] Cons.prems by auto
  show ?case
    using e1 e2 m by (intro exI [of _ "es1 @ es2"]) (auto simp add: run_append)
qed

lemma chunk_start:
  assumes "onmessage_begin h msg t s = (s1, Some ctx)"
  shows "scheduled (onmessage h msg t (Some (d, captured, level)) s) =
           scheduled s @ [(ctx, max (nextStartTimeRef s) t, d)] \<and>
         nextStartTimeRef (onmessage h msg t (Some (d, captured, level)) s) =
           add_double h (max (nextStartTimeRef s) t) d"
  using onmessage_begin_clock [of h msg t s] assms
  by (simp add: onmessage_def onmessage_decoded_def updateVol_def Let_def)

lemma audio_msg_begin:
  "outputAudioContextRef s = Some ctx \<Longrightarrow>
   onmessage_begin h audio_msg t s = (s\<lparr>nextStartTimeRef := max (nextStartTimeRef s) t\<rparr>, Some ctx)"
  by (simp add: onmessage_begin_def audio_msg_def)

lemma audio_msg_handled:
  assumes "outputAudioContextRef s = Some ctx"
  shows "scheduled (onmessage h audio_msg t (Some (d, captured, level)) s) =
           scheduled s @ [(ctx, max (nextStartTimeRef s) t, d)]"
    "nextStartTimeRef (onmessage h audio_msg t (Some (d, captured, level)) s) =
           add_double h (max (nextStartTimeRef s) t) d"
    "outputAudioContextRef (onmessage h audio_msg t (Some (d, captured, level)) s) = Some ctx"
  using assms
  by (simp_all add: onmessage_def audio_msg_begin onmessage_decoded_def updateVol_def Let_def)

lemma arrivals_schedule:
  "outputAudioContextRef s = Some ctx \<Longrightarrow>
   scheduled (handle_all h s (arrivals captured level cs)) =
     scheduled s @ map (\<lambda>(st, d). (ctx, st, d)) (spec_schedule h (nextStartTimeRef s) cs)"
proof (induction cs arbitrary: s)
  case Nil
  then show ?case by (simp add: arrivals_def)
next
  case (Cons c cs)
  obtain t d where c: "c = (t, d)" by (cases c)
  let ?s = "onmessage h audio_msg t (Some (d, captured, level)) s"
  have "scheduled (handle_all h ?s (arrivals captured level cs)) =
          scheduled ?s @ map (\<lambda>(st, d). (ctx, st, d)) (spec_schedule h (nextStartTimeRef ?s) cs)"
    using Cons.IH [of ?s] audio_msg_handled(3) [OF Cons.prems] by simp
  then show ?case
    using audio_msg_handled(1,2) [OF Cons.prems, of h t d captured level] c
    by (simp add: arrivals_def)
qed

text \<open>
  C8, as stated, fails: \<open>onmessage\<close> waits for the decode between its reading of the
  clock and its call of \<open>source.start\<close>, and the next message can be served in between.
  Of two chunks, the first arriving at time 1 with a buffer of duration 4 and the second
  at time 2 with a buffer of duration 3, the second is decoded first: it starts at 2, and
  the first chunk starts at 5, after it and not at the maximum of the playback clock (0)
  and the output clock (1).  In arrival order the claim asks for the starts 1 and 5.
\<close>

theorem overlapping_decodes_reorder:
  "nextStartTimeRef live0 = 0 \<and>
   scheduled overlapped0 = [(1, 2, 3), (1, 5, 4)] \<and>
   spec_schedule host0 (nextStartTimeRef live0) [(1, 4), (2, 3)] = [(1, 4), (5, 3)]"
  by (simp add: overlapped0_def run_def onmessage_begin_def onmessage_decoded_def updateVol_def
      audio_msg_def live0_fields host0_def Let_def)

text \<open>
  C8, amended.  The sum of two doubles is taken from the host; of it the theorem assumes
  that adding a non-negative duration does not lower a time.  Then, along any sequence of
  callbacks of the hook in which every decoded buffer has a non-negative duration,
  \<open>nextStartTimeRef\<close> never decreases, and in the order of the calls of
  \<open>source.start\<close>, which is the order in which the decodes end, each start is at least
  the start before it and at least that start plus that duration as the code adds them.
  For messages handled one after the other, each to its end, that order is the order of
  arrival, and the audio chunks are scheduled as the spec describes: each at the maximum
  of \<open>nextStartTimeRef\<close> and the output clock read at its arrival, after which the
  playback clock is that start plus the duration.
\<close>

theorem playback_sequential:
  assumes "\<forall>x d. 0 \<le> d \<longrightarrow> x \<le> add_double h x d" and "sched_inv h s"
  shows "(\<forall>es. (\<forall>e\<in>set es. duration_ok e) \<longrightarrow>
            nextStartTimeRef s \<le> nextStartTimeRef (run h s es) \<and>
            sequential h (scheduled (run h s es)) \<and>
            ends_by h (nextStartTimeRef (run h s es)) (scheduled (run h s es))) \<and>
         (\<forall>ms. (\<forall>m\<in>set ms. decode_ok (snd (snd m))) \<longrightarrow>
            nextStartTimeRef s \<le> nextStartTimeRef (handle_all h s ms) \<and>
            sequential h (scheduled (handle_all h s ms))) \<and>
         (\<forall>cs ctx captured level. outputAudioContextRef s = Some ctx \<longrightarrow>
            scheduled (handle_all h s (arrivals captured level cs)) =
              scheduled s @ map (\<lambda>(st, d). (ctx, st, d)) (spec_schedule h (nextStartTimeRef s) cs)) \<and>
         (\<forall>msg t d captured level s1 ctx.
            onmessage_begin h msg t s = (s1, Some ctx) \<longrightarrow>
            scheduled (onmessage h msg t (Some (d, captured, level)) s) =
              scheduled s @ [(ctx, max (nextStartTimeRef s) t, d)] \<and>
            nextStartTimeRef (onmessage h msg t (Some (d, captured, level)) s) =
              add_double h (max (nextStartTimeRef s) t) d)"
proof (intro conjI allI impI)
  fix es :: "event list"
  assume "\<forall>e\<in>set es. duration_ok e"
  then have r: "nextStartTimeRef s \<le> nextStartTimeRef (run h s es) \<and> sched_inv h (run h s es)"
    using run_clock [OF assms(1), of es s] assms(2) by simp
  from r show "nextStartTimeRef s \<le> nextStartTimeRef (run h s es)" by simp
  from r show "sequential h (scheduled (run h s es))" by (simp add: sched_inv_def)
  from r show "ends_by h (nextStartTimeRef (run h s es)) (scheduled (run h s es))"
    by (simp add: sched_inv_def)
next
  fix ms :: "(LiveServerMessage \<times> real \<times> (real \<times> StreamState \<times> real) option) list"
  assume "\<forall>m\<in>set ms. decode_ok (snd (snd m))"
  then obtain es where es: "handle_all h s ms = run h s es" "\<forall>e\<in>set es. duration_ok e"
    using handle_all_run [of ms h s] by blast
  have r: "nextStartTimeRef s \<le> nextStartTimeRef (run h s es) \<and> sched_inv h (run h s es)"
    using run_clock [OF assms(1), of es s] assms(2) es(2) by simp
  from r show "nextStartTimeRef s \<le> nextStartTimeRef (handle_all h s ms)" by (simp add: es(1))
  from r show "sequential h (scheduled (handle_all h s ms))" by (simp add: es(1) sched_inv_def)
next
  fix cs ctx captured level
  assume "outputAudioContextRef s = Some ctx"
  then show "scheduled (handle_all h s (arrivals captured level cs)) =
       scheduled s @ map (\<lambda>(st, d). (ctx, st, d)) (spec_schedule h (nextStartTimeRef s) cs)"
    by (rule arrivals_schedule)
next
  fix msg t d captured level s1 ctx
  assume b: "onmessage_begin h msg t s = (s1, Some ctx)"
  from chunk_start [OF b, of d captured level]
  show "scheduled (onmessage h msg t (Some (d, captured, level)) s) =
       scheduled s @ [(ctx, max (nextStartTimeRef s) t, d)]"
    and "nextStartTimeRef (onmessage h msg t (Some (d, captured, level)) s) =
       add_double h (max (nextStartTimeRef s) t) d"
    by simp_all
qed

text \<open>
  Witness for C8: on the session \<open>live0\<close>, two chunks of durations 4 and 3 that arrive
  at output times 1 and 2 and are handled one after the other are scheduled at 1 and 5;
  the run with overlapping decodes is sequential in the order of its starts, 2 and 5.
\<close>

theorem playback_sequential_witness:
  "sched_inv host0 live0 \<and>
   scheduled (handle_all host0 live0 (arrivals IDLE 0 [(1, 4), (2, 3)])) = [(1, 1, 4), (1, 5, 3)] \<and>
   sequential host0 (scheduled (handle_all host0 live0 (arrivals IDLE 0 [(1, 4), (2, 3)]))) \<and>
   sequential host0 (scheduled overlapped0) \<and>
   nextStartTimeRef live0 \<le> nextStartTimeRef overlapped0"
proof -
  have add: "\<forall>x d. 0 \<le> d \<longrightarrow> x \<le> add_double host0 x d"
    by (simp add: host0_def)
  have inv: "sched_inv host0 live0"
    by (simp add: sched_inv_def live0_fields)
  note th = playback_sequential [OF add inv]
  have ok: "\<forall>e\<in>set [OnMessage audio_msg 1, OnMessage audio_msg 2,
                       AudioDecoded 1 3 IDLE 0, AudioDecoded 1 4 IDLE 0]. duration_ok e"
    by simp
  have dec: "\<forall>m\<in>set (arrivals IDLE 0 [(1, 4), (2, 3)]). decode_ok (snd (snd m))"
    by (simp add: arrivals_def)
  from th ok have over: "nextStartTimeRef live0 \<le> nextStartTimeRef overlapped0 \<and>
      sequential host0 (scheduled overlapped0)"
    unfolding overlapped0_def by blast
  from th dec have seq: "sequential host0 (scheduled (handle_all host0 live0 (arrivals IDLE 0 [(1, 4), (2, 3)])))"
    by blast
  from th have "scheduled (handle_all host0 live0 (arrivals IDLE 0 [(1, 4), (2, 3)])) =
      scheduled live0 @ map (\<lambda>(st, d). (1, st, d)) (spec_schedule host0 (nextStartTimeRef live0) [(1, 4), (2, 3)])"
    using live0_fields(5) by blast
  then have sch: "scheduled (handle_all host0 live0 (arrivals IDLE 0 [(1, 4), (2, 3)])) = [(1, 1, 4), (1, 5, 3)]"
    by (simp add: live0_fields host0_def)
  from inv sch seq over show ?thesis by simp
qed

end
